theory Spec2Isabelle
  imports Main "HOL-Library.Sublist"
begin

section \<open>The template engine of tcommit\<close>

text \<open>
  A shallow embedding of the synchronous node-tree template engine (package
  \<open>template\<close>): the scanner and token parser of \<open>ParseString\<close>, the two node kinds with
  their \<open>WriteTo\<close> methods, and the two renderers \<open>Execute\<close> and \<open>ExecuteTo\<close>.
  Go strings are byte sequences, so a string is a \<^typ>\<open>char list\<close> of bytes.
\<close>

subsection \<open>Errors, nodes, replacers, writers\<close>

text \<open>
  The three error constructors of \<open>errors.go\<close>, with the arguments in the order the
  constructors take them (\<open>NewInvalidValueError(val, key, choices)\<close>). The fourth
  constructor stands for an error handed back by the \<open>io.Writer\<close> a node writes into.
\<close>

datatype error =
    InvalidTokenSyntax string
  | NoReplacement string
  | InvalidValue string string "string list"
  | WriteFailure string

record TextNode =
  Text :: string

record VarNode =
  Key :: string
  Choices :: "string list"
  Default :: string
  HasDef :: bool

text \<open>The interface \<open>Node\<close> has exactly these two implementations.\<close>

datatype Node = TextN TextNode | VarN VarNode

record Template =
  Nodes :: "Node list"

text \<open>\<open>Replacer.Get(key)\<close> returns a value and a found flag.\<close>

type_synonym Replacer = "string \<Rightarrow> string \<times> bool"

definition ReplacerFuncFromMap :: "(string \<rightharpoonup> string) \<Rightarrow> Replacer" where
  "ReplacerFuncFromMap m =
     (\<lambda>key. case m key of Some v \<Rightarrow> (v, True) | None \<Rightarrow> ([], False))"

text \<open>
  An \<open>io.Writer\<close> over a sink of type \<^typ>\<open>'w\<close>: one write takes the sink and the bytes
  and returns the sink afterwards, with the message of the error it reports, if any.
\<close>

type_synonym 'w Writer = "'w \<Rightarrow> string \<Rightarrow> 'w \<times> string option"

definition WriteString :: "'w Writer \<Rightarrow> 'w \<Rightarrow> string \<Rightarrow> 'w \<times> error option" where
  "WriteString wr w s =
     (case wr w s of
        (w', None) \<Rightarrow> (w', None)
      | (w', Some msg) \<Rightarrow> (w', Some (WriteFailure msg)))"

text \<open>\<open>strings.Builder\<close> and \<open>bytes.Buffer\<close>: a write appends and never fails.\<close>

definition Builder_Write :: "string Writer" where
  "Builder_Write out s = (out @ s, None)"

subsection \<open>Rendering one node\<close>

fun isValidChoice_loop :: "string list \<Rightarrow> string \<Rightarrow> bool" where
  "isValidChoice_loop [] val = False"
| "isValidChoice_loop (c # cs) val = (if c = val then True else isValidChoice_loop cs val)"

definition isValidChoice :: "VarNode \<Rightarrow> string \<Rightarrow> bool" where
  "isValidChoice v val = isValidChoice_loop (Choices v) val"

definition VarNode_WriteTo :: "'w Writer \<Rightarrow> VarNode \<Rightarrow> 'w \<Rightarrow> Replacer \<Rightarrow> 'w \<times> error option" where
  "VarNode_WriteTo wr v w r =
     (case r (Key v) of (val0, found) \<Rightarrow>
        (case (if \<not> found
               then (if HasDef v then Inr (Default v) else Inl (NoReplacement (Key v)))
               else Inr val0) of
           Inl err \<Rightarrow> (w, Some err)
         | Inr val \<Rightarrow>
             if 0 < length (Choices v) \<and> found \<and> \<not> isValidChoice v val
             then (w, Some (InvalidValue val (Key v) (Choices v)))
             else WriteString wr w val))"

definition TextNode_WriteTo :: "'w Writer \<Rightarrow> TextNode \<Rightarrow> 'w \<Rightarrow> Replacer \<Rightarrow> 'w \<times> error option" where
  "TextNode_WriteTo wr t w r = WriteString wr w (Text t)"

fun WriteTo :: "'w Writer \<Rightarrow> Node \<Rightarrow> 'w \<Rightarrow> Replacer \<Rightarrow> 'w \<times> error option" where
  "WriteTo wr (TextN t) w r = TextNode_WriteTo wr t w r"
| "WriteTo wr (VarN v) w r = VarNode_WriteTo wr v w r"

subsection \<open>Rendering a template\<close>

text \<open>
  \<open>Template.Execute\<close>: the loop writes into a \<open>strings.Builder\<close> and returns the empty
  string with the error as soon as a node fails.
\<close>

fun Execute_loop :: "Node list \<Rightarrow> string \<Rightarrow> Replacer \<Rightarrow> string \<times> error option" where
  "Execute_loop [] out r = (out, None)"
| "Execute_loop (node # rest) out r =
     (case WriteTo Builder_Write node out r of
        (out', Some err) \<Rightarrow> ([], Some err)
      | (out', None) \<Rightarrow> Execute_loop rest out' r)"

definition Execute :: "Template \<Rightarrow> Replacer \<Rightarrow> string \<times> error option" where
  "Execute t r = Execute_loop (Nodes t) [] r"

text \<open>
  \<open>Template.ExecuteTo\<close>: the same loop over the caller's writer. The sink is returned
  as the writes left it, also when the call fails.
\<close>

fun ExecuteTo_loop :: "'w Writer \<Rightarrow> Node list \<Rightarrow> 'w \<Rightarrow> Replacer \<Rightarrow> 'w \<times> error option" where
  "ExecuteTo_loop wr [] w r = (w, None)"
| "ExecuteTo_loop wr (node # rest) w r =
     (case WriteTo wr node w r of
        (w', Some err) \<Rightarrow> (w', Some err)
      | (w', None) \<Rightarrow> ExecuteTo_loop wr rest w' r)"

definition ExecuteTo :: "'w Writer \<Rightarrow> Template \<Rightarrow> 'w \<Rightarrow> Replacer \<Rightarrow> 'w \<times> error option" where
  "ExecuteTo wr t w r = ExecuteTo_loop wr (Nodes t) w r"

subsection \<open>The string functions of the Go library that the parser calls\<close>

text \<open>\<open>strings.Index\<close>: the first position of \<open>substr\<close>, \<open>None\<close> for Go's \<open>-1\<close>.\<close>

fun Index :: "string \<Rightarrow> string \<Rightarrow> nat option" where
  "Index [] substr = (if substr = [] then Some 0 else None)"
| "Index (c # cs) substr =
     (if prefix substr (c # cs) then Some 0 else map_option Suc (Index cs substr))"

definition HasPrefix :: "string \<Rightarrow> string \<Rightarrow> bool" where
  "HasPrefix s p = prefix p s"

text \<open>\<open>s[lo:hi]\<close>, for \<open>lo \<le> hi \<le> len(s)\<close> (Go panics otherwise; the parser stays in range).\<close>

definition slice :: "string \<Rightarrow> nat \<Rightarrow> nat \<Rightarrow> string" where
  "slice s lo hi = take (hi - lo) (drop lo s)"

text \<open>
  \<open>strings.TrimSpace\<close> removes leading and trailing Unicode white space. On the bytes of
  a string these are the UTF-8 encodings of the code points with the property
  White_Space: U+0009 to U+000D, U+0020, U+0085, U+00A0, U+1680, U+2000 to U+200A,
  U+2028, U+2029, U+202F, U+205F and U+3000.
\<close>

definition spaceRunes :: "string list" where
  "spaceRunes =
     [[CHR 0x09], [CHR 0x0A], [CHR 0x0B], [CHR 0x0C], [CHR 0x0D], [CHR 0x20],
      [CHR 0xC2, CHR 0x85], [CHR 0xC2, CHR 0xA0],
      [CHR 0xE1, CHR 0x9A, CHR 0x80],
      [CHR 0xE2, CHR 0x80, CHR 0x80], [CHR 0xE2, CHR 0x80, CHR 0x81],
      [CHR 0xE2, CHR 0x80, CHR 0x82], [CHR 0xE2, CHR 0x80, CHR 0x83],
      [CHR 0xE2, CHR 0x80, CHR 0x84], [CHR 0xE2, CHR 0x80, CHR 0x85],
      [CHR 0xE2, CHR 0x80, CHR 0x86], [CHR 0xE2, CHR 0x80, CHR 0x87],
      [CHR 0xE2, CHR 0x80, CHR 0x88], [CHR 0xE2, CHR 0x80, CHR 0x89],
      [CHR 0xE2, CHR 0x80, CHR 0x8A],
      [CHR 0xE2, CHR 0x80, CHR 0xA8], [CHR 0xE2, CHR 0x80, CHR 0xA9],
      [CHR 0xE2, CHR 0x80, CHR 0xAF], [CHR 0xE2, CHR 0x81, CHR 0x9F],
      [CHR 0xE3, CHR 0x80, CHR 0x80]]"

text \<open>The number of bytes of the white-space rune a string starts, or ends, with.\<close>

definition leadingSpace :: "string \<Rightarrow> nat" where
  "leadingSpace s = (case find (\<lambda>e. prefix e s) spaceRunes of None \<Rightarrow> 0 | Some e \<Rightarrow> length e)"

definition trailingSpace :: "string \<Rightarrow> nat" where
  "trailingSpace s = (case find (\<lambda>e. suffix e s) spaceRunes of None \<Rightarrow> 0 | Some e \<Rightarrow> length e)"

function TrimLeft :: "string \<Rightarrow> string" where
  "TrimLeft s = (if leadingSpace s = 0 then s else TrimLeft (drop (leadingSpace s) s))"
  by pat_completeness auto

function TrimRight :: "string \<Rightarrow> string" where
  "TrimRight s =
     (if trailingSpace s = 0 then s else TrimRight (take (length s - trailingSpace s) s))"
  by pat_completeness auto

lemma leadingSpace_Nil: "leadingSpace [] = 0"
  by (simp add: leadingSpace_def spaceRunes_def)

lemma trailingSpace_Nil: "trailingSpace [] = 0"
  by (simp add: trailingSpace_def spaceRunes_def)

termination TrimLeft
proof (relation "measure length")
  show "wf (measure length)" by simp
next
  fix s :: string
  assume pos: "leadingSpace s \<noteq> 0"
  then have "s \<noteq> []" using leadingSpace_Nil by auto
  with pos show "(drop (leadingSpace s) s, s) \<in> measure length" by simp
qed

termination TrimRight
proof (relation "measure length")
  show "wf (measure length)" by simp
next
  fix s :: string
  assume pos: "trailingSpace s \<noteq> 0"
  then have "s \<noteq> []" using trailingSpace_Nil by auto
  with pos show "(take (length s - trailingSpace s) s, s) \<in> measure length" by simp
qed

declare TrimLeft.simps [simp del] TrimRight.simps [simp del]

definition TrimSpace :: "string \<Rightarrow> string" where
  "TrimSpace s = TrimRight (TrimLeft s)"

text \<open>Facts about \<open>strings.Index\<close>: where a hit lies, and what a miss excludes.\<close>

lemma Index_bound: "Index s sub = Some i \<Longrightarrow> i + length sub \<le> length s"
proof (induction s arbitrary: i)
  case Nil
  then show ?case by (simp split: if_splits)
next
  case (Cons c cs)
  show ?case
  proof (cases "prefix sub (c # cs)")
    case True
    from prefix_length_le [OF True] Cons.prems True show ?thesis by simp
  next
    case False
    with Cons.prems obtain j where j: "Index cs sub = Some j" "i = Suc j" by auto
    from Cons.IH [OF j(1)] j(2) show ?thesis by simp
  qed
qed

lemma Index_hit: "Index s sub = Some i \<Longrightarrow> prefix sub (drop i s)"
proof (induction s arbitrary: i)
  case Nil
  then show ?case by (simp split: if_splits)
next
  case (Cons c cs)
  show ?case
  proof (cases "prefix sub (c # cs)")
    case True
    with Cons.prems show ?thesis by simp
  next
    case False
    with Cons.prems obtain j where j: "Index cs sub = Some j" "i = Suc j" by auto
    from Cons.IH [OF j(1)] j(2) show ?thesis by simp
  qed
qed

lemma Index_first: "Index s sub = Some i \<Longrightarrow> j < i \<Longrightarrow> \<not> prefix sub (drop j s)"
proof (induction s arbitrary: i j)
  case Nil
  then show ?case by (simp split: if_splits)
next
  case (Cons c cs)
  show ?case
  proof (cases "prefix sub (c # cs)")
    case True
    with Cons.prems show ?thesis by simp
  next
    case False
    with Cons.prems obtain k where k: "Index cs sub = Some k" "i = Suc k" by auto
    show ?thesis
    proof (cases j)
      case 0
      with False show ?thesis by simp
    next
      case (Suc j')
      with Cons.prems(2) k(2) have "j' < k" by simp
      from Cons.IH [OF k(1) this] Suc show ?thesis by simp
    qed
  qed
qed

lemma Index_miss: "Index s sub = None \<Longrightarrow> \<not> prefix sub (drop j s)"
proof (induction s arbitrary: j)
  case Nil
  then show ?case by (simp split: if_splits)
next
  case (Cons c cs)
  from Cons.prems have np: "\<not> prefix sub (c # cs)" and rec: "Index cs sub = None"
    by (auto split: if_splits)
  show ?case
  proof (cases j)
    case 0
    with np show ?thesis by simp
  next
    case (Suc j')
    with Cons.IH [OF rec] show ?thesis by simp
  qed
qed

text \<open>
  \<open>strings.Split(s, sep)\<close> for a non-empty separator: cut at each occurrence of \<open>sep\<close>,
  found from left to right by \<open>Index\<close>; the result has at least one part. (With the empty
  separator Go cuts after each UTF-8 sequence; the parser never passes it, and the model
  cuts after each byte.)
\<close>

function Split :: "string \<Rightarrow> string \<Rightarrow> string list" where
  "Split s sep =
     (if sep = [] then map (\<lambda>c. [c]) s
      else case Index s sep of
             None \<Rightarrow> [s]
           | Some m \<Rightarrow> take m s # Split (drop (m + length sep) s) sep)"
  by pat_completeness auto
termination
proof (relation "measure (\<lambda>(s, sep). length s)")
  show "wf (measure (\<lambda>(s, sep). length s))" by simp
next
  fix s sep :: string and m :: nat
  assume ne: "sep \<noteq> []" and hit: "Index s sep = Some m"
  from Index_bound [OF hit] ne have "0 < length s" "0 < m + length sep" by auto
  then show "((drop (m + length sep) s, sep), (s, sep)) \<in> measure (\<lambda>(s, sep). length s)"
    by simp
qed

declare Split.simps [simp del]

subsection \<open>The parser\<close>

definition openMarker :: string where "openMarker = ''{{''"
definition closeMarker :: string where "closeMarker = ''}}''"
definition varPrefix :: string where "varPrefix = ''.''"
definition choiceSep :: string where "choiceSep = '':''"
definition choiceDelim :: string where "choiceDelim = ''|''"
definition defPrefix :: string where "defPrefix = ''@''"

text \<open>
  \<open>findNextTemplate\<close> returns \<open>(start, end, found)\<close>; \<open>None\<close> stands for
  \<open>(0, 0, false)\<close>.
\<close>

definition findNextTemplate :: "string \<Rightarrow> nat \<Rightarrow> (nat \<times> nat) option" where
  "findNextTemplate data startPos =
     (case Index (drop startPos data) openMarker of
        None \<Rightarrow> None
      | Some i \<Rightarrow>
          let openPos = i + startPos in
          (case Index (drop (openPos + length openMarker) data) closeMarker of
             None \<Rightarrow> None
           | Some j \<Rightarrow>
               let closePos = j + (openPos + length openMarker) in
               Some (openPos, closePos + length closeMarker)))"

text \<open>
  The loop of \<open>parseToken\<close> over the parts after the choice separator, on the three
  variables it assigns: \<open>choices\<close>, \<open>def\<close> and \<open>hasDef\<close>.
\<close>

fun parseToken_parts ::
  "string list \<Rightarrow> string list \<times> string \<times> bool \<Rightarrow> string list \<times> string \<times> bool" where
  "parseToken_parts [] st = st"
| "parseToken_parts (p # ps) (choices, def, hasDef) =
     (let p' = TrimSpace p in
      if HasPrefix p' defPrefix
      then parseToken_parts ps (choices, drop (length defPrefix) p', True)
      else parseToken_parts ps (choices @ [p'], def, hasDef))"

definition parseToken :: "string \<Rightarrow> error + Node" where
  "parseToken token =
     (let t = TrimSpace token in
      if \<not> HasPrefix t varPrefix then Inl (InvalidTokenSyntax token)
      else
        let body = drop (length varPrefix) t in
        (case Index body choiceSep of
           Some idx \<Rightarrow>
             let key = TrimSpace (take idx body);
                 rest = drop (idx + length choiceSep) body;
                 parts = Split rest choiceDelim
             in (case parseToken_parts parts ([], [], False) of
                   (choices, def, hasDef) \<Rightarrow>
                     Inr (VarN \<lparr>Key = key, Choices = choices, Default = def, HasDef = hasDef\<rparr>))
         | None \<Rightarrow>
             Inr (VarN \<lparr>Key = TrimSpace body, Choices = [], Default = [], HasDef = False\<rparr>)))"

lemma findNextTemplate_bounds:
  assumes "findNextTemplate data pos = Some (start, end)"
  shows "pos \<le> start" and "start + 4 \<le> end" and "end \<le> length data"
proof -
  from assms obtain i j where
    i: "Index (drop pos data) openMarker = Some i" and
    j: "Index (drop (i + pos + length openMarker) data) closeMarker = Some j" and
    s: "start = i + pos" and e: "end = j + (i + pos + length openMarker) + length closeMarker"
    by (auto simp: findNextTemplate_def Let_def split: option.splits)
  show "pos \<le> start" using s by simp
  show "start + 4 \<le> end" using s e by (simp add: openMarker_def closeMarker_def)
  from Index_bound [OF j] have "j + length closeMarker \<le> length data - (i + pos + length openMarker)"
    by simp
  moreover from Index_bound [OF i] have "i + length openMarker \<le> length data - pos" by simp
  ultimately show "end \<le> length data" using e by (simp add: openMarker_def closeMarker_def)
qed

function ParseString_loop :: "string \<Rightarrow> nat \<Rightarrow> Node list \<Rightarrow> error + Node list" where
  "ParseString_loop data pos nodes =
     (case findNextTemplate data pos of
        None \<Rightarrow>
          Inr (if 0 < length (drop pos data)
               then nodes @ [TextN \<lparr>Text = drop pos data\<rparr>]
               else nodes)
      | Some (start, end) \<Rightarrow>
          let nodes1 = (if pos < start
                        then nodes @ [TextN \<lparr>Text = slice data pos start\<rparr>]
                        else nodes);
              token = slice data (start + length openMarker) (end - length closeMarker)
          in (case parseToken token of
                Inl err \<Rightarrow> Inl err
              | Inr node \<Rightarrow> ParseString_loop data end (nodes1 @ [node])))"
  by pat_completeness auto
termination
proof (relation "measure (\<lambda>(data, pos, nodes). length data - pos)")
  show "wf (measure (\<lambda>(data, pos, nodes). length data - pos))" by simp
next
  fix data :: string and pos :: nat and nodes :: "Node list" and x2 start "end" x xa node
  assume f: "findNextTemplate data pos = Some x2" and x2: "(start, end) = x2"
  from f x2 have f': "findNextTemplate data pos = Some (start, end)" by simp
  from findNextTemplate_bounds [OF f']
  show "((data, end, x @ [node]), (data, pos, nodes))
          \<in> measure (\<lambda>(data, pos, nodes). length data - pos)"
    by simp
qed

declare ParseString_loop.simps [simp del]

definition ParseString :: "string \<Rightarrow> error + Template" where
  "ParseString data =
     (case ParseString_loop data 0 [] of
        Inl err \<Rightarrow> Inl err
      | Inr nodes \<Rightarrow> Inr \<lparr>Nodes = nodes\<rparr>)"

text \<open>
  The marker bodies that the scanner of \<open>ParseString\<close> extracts from position \<open>pos\<close> on,
  in order: its loop with the nodes left out and no token rejected.
\<close>

function tokens :: "string \<Rightarrow> nat \<Rightarrow> string list" where
  "tokens data pos =
     (case findNextTemplate data pos of
        None \<Rightarrow> []
      | Some (start, end) \<Rightarrow>
          slice data (start + length openMarker) (end - length closeMarker) # tokens data end)"
  by pat_completeness auto
termination
proof (relation "measure (\<lambda>(data, pos). length data - pos)")
  show "wf (measure (\<lambda>(data, pos). length data - pos))" by simp
next
  fix data :: string and pos :: nat and x2 start "end"
  assume f: "findNextTemplate data pos = Some x2" and x2: "(start, end) = x2"
  from f x2 have f': "findNextTemplate data pos = Some (start, end)" by simp
  from findNextTemplate_bounds [OF f']
  show "((data, end), (data, pos)) \<in> measure (\<lambda>(data, pos). length data - pos)"
    by simp
qed

declare tokens.simps [simp del]

text \<open>
  The closed markers that the scanner of \<open>ParseString\<close> finds from position \<open>pos\<close> on, as
  the pairs \<open>(start, end)\<close> that \<open>findNextTemplate\<close> returns, one per turn of the loop.
\<close>

function markers :: "string \<Rightarrow> nat \<Rightarrow> (nat \<times> nat) list" where
  "markers data pos =
     (case findNextTemplate data pos of
        None \<Rightarrow> []
      | Some (start, end) \<Rightarrow> (start, end) # markers data end)"
  by pat_completeness auto
termination
proof (relation "measure (\<lambda>(data, pos). length data - pos)")
  show "wf (measure (\<lambda>(data, pos). length data - pos))" by simp
next
  fix data :: string and pos :: nat and x2 start "end"
  assume f: "findNextTemplate data pos = Some x2" and x2: "(start, end) = x2"
  from f x2 have f': "findNextTemplate data pos = Some (start, end)" by simp
  from findNextTemplate_bounds [OF f']
  show "((data, end), (data, pos)) \<in> measure (\<lambda>(data, pos). length data - pos)"
    by simp
qed

declare markers.simps [simp del]

text \<open>
  The value of \<open>pos\<close> when the loop of \<open>ParseString\<close> leaves through \<open>break\<close>: the \<open>end\<close> of
  the last closed marker, or the position the scan started from when there is none.
\<close>

definition scanEnd :: "string \<Rightarrow> nat \<Rightarrow> nat" where
  "scanEnd data pos = last (pos # map snd (markers data pos))"

text \<open>
  The nodes that the loop of \<open>ParseString\<close> appends for the closed markers \<open>ms\<close>, scanning
  from \<open>pos\<close>: for each marker the literal text before it, if there is any, and the node
  of its body.
\<close>

fun marker_nodes :: "string \<Rightarrow> nat \<Rightarrow> (nat \<times> nat) list \<Rightarrow> Node list" where
  "marker_nodes data pos [] = []"
| "marker_nodes data pos ((start, end) # ms) =
     (if pos < start then [TextN \<lparr>Text = slice data pos start\<rparr>] else [])
     @ (case parseToken (slice data (start + length openMarker) (end - length closeMarker)) of
          Inl err \<Rightarrow> []
        | Inr node \<Rightarrow> [node])
     @ marker_nodes data end ms"

subsection \<open>An auxiliary view of rendering\<close>

text \<open>What one node contributes, apart from the writer: an error or the bytes it writes.\<close>

definition contribution :: "Node \<Rightarrow> Replacer \<Rightarrow> error + string" where
  "contribution n r =
     (case n of
        TextN t \<Rightarrow> Inr (Text t)
      | VarN v \<Rightarrow>
          (case r (Key v) of (val, found) \<Rightarrow>
             if found
             then (if Choices v \<noteq> [] \<and> val \<notin> set (Choices v)
                   then Inl (InvalidValue val (Key v) (Choices v)) else Inr val)
             else (if HasDef v then Inr (Default v) else Inl (NoReplacement (Key v)))))"

section \<open>Properties of the renderer\<close>

lemma isValidChoice_loop_set: "isValidChoice_loop cs val = (val \<in> set cs)"
  by (induction cs) auto

lemma isValidChoice_set: "isValidChoice v val = (val \<in> set (Choices v))"
  by (simp add: isValidChoice_def isValidChoice_loop_set)

text \<open>
  C1. Resolution of a variable node, for every node \<open>v\<close>, writer \<open>wr\<close>, sink \<open>w\<close> and
  replacer \<open>r\<close>, where \<open>r\<close> answers \<open>(val, found)\<close> for the node's key:
  if the key is found, the list of choices is not empty and \<open>val\<close> is not one of them,
  the node fails with \<open>InvalidValue\<close> carrying the value, the key and the choices, and
  writes nothing; if the key is not found and the node has a default, the default is
  written, whatever the choices are; if the key is not found and there is no default, the
  node fails with \<open>NoReplacement\<close> carrying the key; otherwise \<open>val\<close> is written.
\<close>

theorem VarNode_WriteTo_resolution:
  assumes "r (Key v) = (val, found)"
  shows "(found \<and> Choices v \<noteq> [] \<and> val \<notin> set (Choices v) \<longrightarrow>
            VarNode_WriteTo wr v w r = (w, Some (InvalidValue val (Key v) (Choices v))))
       \<and> (\<not> found \<and> HasDef v \<longrightarrow>
            VarNode_WriteTo wr v w r = WriteString wr w (Default v))
       \<and> (\<not> found \<and> \<not> HasDef v \<longrightarrow>
            VarNode_WriteTo wr v w r = (w, Some (NoReplacement (Key v))))
       \<and> (found \<and> (Choices v = [] \<or> val \<in> set (Choices v)) \<longrightarrow>
            VarNode_WriteTo wr v w r = WriteString wr w val)"
  using assms by (auto simp: VarNode_WriteTo_def isValidChoice_set)

theorem VarNode_WriteTo_resolution_witness:
  "VarNode_WriteTo Builder_Write
      \<lparr>Key = ''greeting'', Choices = [''Hi'', ''Hello''], Default = ''Hey'', HasDef = True\<rparr>
      ''Hello '' (ReplacerFuncFromMap [''greeting'' \<mapsto> ''Bye''])
     = (''Hello '', Some (InvalidValue ''Bye'' ''greeting'' [''Hi'', ''Hello'']))
   \<and> VarNode_WriteTo Builder_Write
      \<lparr>Key = ''greeting'', Choices = [''Hi'', ''Hello''], Default = ''Hey'', HasDef = True\<rparr>
      ''Hello '' (ReplacerFuncFromMap Map.empty)
     = (''Hello Hey'', None)
   \<and> VarNode_WriteTo Builder_Write
      \<lparr>Key = ''name'', Choices = [], Default = [], HasDef = False\<rparr>
      ''Hello '' (ReplacerFuncFromMap Map.empty)
     = (''Hello '', Some (NoReplacement ''name''))
   \<and> VarNode_WriteTo Builder_Write
      \<lparr>Key = ''greeting'', Choices = [''Hi'', ''Hello''], Default = ''Hey'', HasDef = True\<rparr>
      ''Hello '' (ReplacerFuncFromMap [''greeting'' \<mapsto> ''Hello''])
     = (''Hello Hello'', None)"
  using
    VarNode_WriteTo_resolution [of "ReplacerFuncFromMap [''greeting'' \<mapsto> ''Bye'']"
      "\<lparr>Key = ''greeting'', Choices = [''Hi'', ''Hello''], Default = ''Hey'', HasDef = True\<rparr>"
      "''Bye''" True Builder_Write "''Hello ''"]
    VarNode_WriteTo_resolution [of "ReplacerFuncFromMap Map.empty"
      "\<lparr>Key = ''greeting'', Choices = [''Hi'', ''Hello''], Default = ''Hey'', HasDef = True\<rparr>"
      "[]" False Builder_Write "''Hello ''"]
    VarNode_WriteTo_resolution [of "ReplacerFuncFromMap Map.empty"
      "\<lparr>Key = ''name'', Choices = [], Default = [], HasDef = False\<rparr>"
      "[]" False Builder_Write "''Hello ''"]
    VarNode_WriteTo_resolution [of "ReplacerFuncFromMap [''greeting'' \<mapsto> ''Hello'']"
      "\<lparr>Key = ''greeting'', Choices = [''Hi'', ''Hello''], Default = ''Hey'', HasDef = True\<rparr>"
      "''Hello''" True Builder_Write "''Hello ''"]
  by (simp add: ReplacerFuncFromMap_def WriteString_def Builder_Write_def)

lemma WriteTo_contribution:
  "WriteTo wr n w r =
     (case contribution n r of Inl e \<Rightarrow> (w, Some e) | Inr s \<Rightarrow> WriteString wr w s)"
  by (cases n)
     (auto simp: contribution_def TextNode_WriteTo_def VarNode_WriteTo_def isValidChoice_set
           split: prod.splits)

lemma contribution_not_WriteFailure: "contribution n r \<noteq> Inl (WriteFailure msg)"
  by (auto simp: contribution_def split: Node.splits prod.splits if_splits)

lemma WriteTo_engine_error:
  assumes "WriteTo wr n w r = (w', Some e)" and "\<forall>msg. e \<noteq> WriteFailure msg"
  shows "w' = w"
  using assms
  by (auto simp: WriteTo_contribution WriteString_def split: sum.splits prod.splits option.splits)

lemma WriteString_Builder: "WriteString Builder_Write out s = (out @ s, None)"
  by (simp add: WriteString_def Builder_Write_def)

lemma Execute_loop_error_empty:
  "snd (Execute_loop ns out r) \<noteq> None \<Longrightarrow> fst (Execute_loop ns out r) = []"
  by (induction ns arbitrary: out) (auto split: prod.splits option.splits)

text \<open>
  C10. Whenever \<open>Execute\<close> returns an error, the string it returns is empty: no partly
  rendered output is seen through the string-returning call, for every template and
  every replacer.
\<close>

theorem Execute_error_empty:
  "snd (Execute t r) \<noteq> None \<Longrightarrow> fst (Execute t r) = []"
  unfolding Execute_def by (rule Execute_loop_error_empty)

theorem Execute_error_empty_witness:
  "snd (Execute \<lparr>Nodes = [TextN \<lparr>Text = ''Hello ''\<rparr>,
                          VarN \<lparr>Key = ''name'', Choices = [], Default = [], HasDef = False\<rparr>,
                          TextN \<lparr>Text = ''!''\<rparr>]\<rparr>
               (ReplacerFuncFromMap Map.empty)) = Some (NoReplacement ''name'')
   \<and> fst (Execute \<lparr>Nodes = [TextN \<lparr>Text = ''Hello ''\<rparr>,
                          VarN \<lparr>Key = ''name'', Choices = [], Default = [], HasDef = False\<rparr>,
                          TextN \<lparr>Text = ''!''\<rparr>]\<rparr>
               (ReplacerFuncFromMap Map.empty)) = []"
proof -
  let ?t = "\<lparr>Nodes = [TextN \<lparr>Text = ''Hello ''\<rparr>,
                      VarN \<lparr>Key = ''name'', Choices = [], Default = [], HasDef = False\<rparr>,
                      TextN \<lparr>Text = ''!''\<rparr>]\<rparr>"
  let ?r = "ReplacerFuncFromMap Map.empty"
  have e: "snd (Execute ?t ?r) = Some (NoReplacement ''name'')"
    by (simp add: Execute_def TextNode_WriteTo_def VarNode_WriteTo_def WriteString_Builder
        ReplacerFuncFromMap_def)
  then have "snd (Execute ?t ?r) \<noteq> None" by simp
  from Execute_error_empty [OF this] e show ?thesis by simp
qed


lemma appending_WriteString:
  assumes "\<forall>w s. snd (wr w s) = None \<and> contents (fst (wr w s)) = contents w @ s"
  shows "snd (WriteString wr w s) = None" and "contents (fst (WriteString wr w s)) = contents w @ s"
proof -
  from assms have a: "snd (wr w s) = None" and b: "contents (fst (wr w s)) = contents w @ s"
    by simp_all
  obtain w' e where eq: "wr w s = (w', e)" by (cases "wr w s")
  with a b show "snd (WriteString wr w s) = None"
    and "contents (fst (WriteString wr w s)) = contents w @ s"
    by (simp_all add: WriteString_def)
qed

lemma loops_agree:
  assumes "\<forall>w s. snd (wr w s) = None \<and> contents (fst (wr w s)) = contents w @ s"
  shows "snd (ExecuteTo_loop wr ns w r) = snd (Execute_loop ns out r)
       \<and> (snd (Execute_loop ns out r) = None \<longrightarrow>
            (\<exists>s. fst (Execute_loop ns out r) = out @ s
               \<and> contents (fst (ExecuteTo_loop wr ns w r)) = contents w @ s))"
proof (induction ns arbitrary: w out)
  case Nil
  show ?case by simp
next
  case (Cons n ns)
  show ?case
  proof (cases "contribution n r")
    case (Inl e)
    then show ?thesis by (simp add: WriteTo_contribution)
  next
    case (Inr s)
    obtain w1 e1 where w1: "WriteString wr w s = (w1, e1)" by (cases "WriteString wr w s")
    from appending_WriteString [OF assms, of w s] w1
    have e1: "e1 = None" and c1: "contents w1 = contents w @ s" by simp_all
    from Cons.IH [of w1 "out @ s"] c1
    show ?thesis
      by (auto simp: WriteTo_contribution Inr w1 e1 WriteString_Builder)
  qed
qed

lemma Execute_ExecuteTo_agree_aux:
  assumes "\<forall>w s. snd (wr w s) = None \<and> contents (fst (wr w s)) = contents w @ s"
  shows "snd (ExecuteTo wr \<lparr>Nodes = ns\<rparr> w r) = snd (Execute \<lparr>Nodes = ns\<rparr> r)"
    and "snd (Execute \<lparr>Nodes = ns\<rparr> r) = None \<Longrightarrow>
            contents (fst (ExecuteTo wr \<lparr>Nodes = ns\<rparr> w r))
              = contents w @ fst (Execute \<lparr>Nodes = ns\<rparr> r)"
  using loops_agree [OF assms, of ns w r "[]"]
  by (auto simp: Execute_def ExecuteTo_def)

text \<open>
  C4. \<open>Execute\<close> and \<open>ExecuteTo\<close> agree, for every template and replacer and for every sink
  that takes each write and keeps the bytes in order (\<open>contents\<close> reads the bytes of a
  sink): both return the same error or both none, and when they succeed the sink has
  gained exactly the string that \<open>Execute\<close> returns.
\<close>

theorem Execute_ExecuteTo_agree:
  assumes "\<forall>w s. snd (wr w s) = None \<and> contents (fst (wr w s)) = contents w @ s"
  shows "snd (ExecuteTo wr t w r) = snd (Execute t r)
       \<and> (snd (Execute t r) = None \<longrightarrow>
            contents (fst (ExecuteTo wr t w r)) = contents w @ fst (Execute t r))"
  using loops_agree [OF assms, of "Nodes t" w r "[]"]
  by (auto simp: Execute_def ExecuteTo_def)

theorem Execute_ExecuteTo_agree_witness:
  "ExecuteTo Builder_Write
      \<lparr>Nodes = [TextN \<lparr>Text = ''Hello ''\<rparr>,
                VarN \<lparr>Key = ''name'', Choices = [], Default = [], HasDef = False\<rparr>,
                TextN \<lparr>Text = ''!''\<rparr>]\<rparr>
      [] (ReplacerFuncFromMap [''name'' \<mapsto> ''World''])
     = (''Hello World!'', None)
   \<and> Execute
      \<lparr>Nodes = [TextN \<lparr>Text = ''Hello ''\<rparr>,
                VarN \<lparr>Key = ''name'', Choices = [], Default = [], HasDef = False\<rparr>,
                TextN \<lparr>Text = ''!''\<rparr>]\<rparr>
      (ReplacerFuncFromMap [''name'' \<mapsto> ''World''])
     = (''Hello World!'', None)"
proof -
  let ?t = "\<lparr>Nodes = [TextN \<lparr>Text = ''Hello ''\<rparr>,
                      VarN \<lparr>Key = ''name'', Choices = [], Default = [], HasDef = False\<rparr>,
                      TextN \<lparr>Text = ''!''\<rparr>]\<rparr>"
  let ?r = "ReplacerFuncFromMap [''name'' \<mapsto> ''World'']"
  have sink: "\<forall>w s. snd (Builder_Write w s) = None \<and> fst (Builder_Write w s) = w @ s"
    by (simp add: Builder_Write_def)
  have ex: "Execute ?t ?r = (''Hello World!'', None)"
    by (simp add: Execute_def TextNode_WriteTo_def VarNode_WriteTo_def WriteString_Builder
        ReplacerFuncFromMap_def isValidChoice_def)
  from Execute_ExecuteTo_agree [of Builder_Write "\<lambda>w. w" ?t "[]" ?r, OF sink] ex
  have "snd (ExecuteTo Builder_Write ?t [] ?r) = None"
    and "fst (ExecuteTo Builder_Write ?t [] ?r) = ''Hello World!''"
    by simp_all
  then have "ExecuteTo Builder_Write ?t [] ?r = (''Hello World!'', None)"
    by (simp add: prod_eq_iff)
  with ex show ?thesis by simp
qed

lemma ExecuteTo_loop_append:
  "ExecuteTo_loop wr (xs @ ys) w r =
     (case ExecuteTo_loop wr xs w r of
        (w1, None) \<Rightarrow> ExecuteTo_loop wr ys w1 r
      | (w1, Some e) \<Rightarrow> (w1, Some e))"
  by (induction xs arbitrary: w) (auto split: prod.splits option.splits)

lemma ExecuteTo_loop_failure:
  "ExecuteTo_loop wr ns w r = (w', Some e) \<Longrightarrow>
     \<exists>pre n post w1. ns = pre @ n # post \<and> ExecuteTo_loop wr pre w r = (w1, None)
        \<and> WriteTo wr n w1 r = (w', Some e)"
proof (induction ns arbitrary: w)
  case Nil
  then show ?case by simp
next
  case (Cons x xs)
  obtain w2 e2 where x: "WriteTo wr x w r = (w2, e2)" by (cases "WriteTo wr x w r")
  show ?case
  proof (cases e2)
    case None
    with x Cons.prems have "ExecuteTo_loop wr xs w2 r = (w', Some e)" by simp
    from Cons.IH [OF this] obtain pre n post w1 where
      d: "xs = pre @ n # post" "ExecuteTo_loop wr pre w2 r = (w1, None)"
         "WriteTo wr n w1 r = (w', Some e)" by blast
    from d x None have "x # xs = (x # pre) @ n # post"
      and "ExecuteTo_loop wr (x # pre) w r = (w1, None)" by simp_all
    with d(3) show ?thesis by blast
  next
    case (Some e')
    with x Cons.prems have "w2 = w'" "e' = e" by simp_all
    with x Some have "x # xs = [] @ x # xs" "ExecuteTo_loop wr [] w r = (w, None)"
      "WriteTo wr x w r = (w', Some e)" by simp_all
    then show ?thesis by blast
  qed
qed

text \<open>
  C7. \<open>ExecuteTo\<close> is fail-fast. The call fails with error \<open>e\<close> and leaves the sink
  \<open>w'\<close> exactly when the nodes split into \<open>pre\<close>, a node \<open>n\<close> and \<open>post\<close> such that all of
  \<open>pre\<close> rendered without error, leaving the sink \<open>w1\<close>, and \<open>n\<close> then failed with \<open>e\<close>;
  the nodes of \<open>post\<close> are not rendered. When \<open>e\<close> is one of the engine's errors the
  failing node wrote nothing (\<open>w' = w1\<close>), and into a sink that keeps its bytes the output
  of \<open>pre\<close> stays written after what the sink held before.
\<close>

theorem ExecuteTo_fail_fast:
  "(ExecuteTo wr t w r = (w', Some e)) =
     (\<exists>pre n post w1.
        Nodes t = pre @ n # post
      \<and> ExecuteTo wr \<lparr>Nodes = pre\<rparr> w r = (w1, None)
      \<and> WriteTo wr n w1 r = (w', Some e)
      \<and> ((\<forall>msg. e \<noteq> WriteFailure msg) \<longrightarrow> w' = w1)
      \<and> ((\<forall>w s. snd (wr w s) = None \<and> contents (fst (wr w s)) = contents w @ s) \<longrightarrow>
           snd (Execute \<lparr>Nodes = pre\<rparr> r) = None
         \<and> contents w' = contents w @ fst (Execute \<lparr>Nodes = pre\<rparr> r)))"
proof
  assume fails: "ExecuteTo wr t w r = (w', Some e)"
  then obtain pre n post w1 where
    d: "Nodes t = pre @ n # post" "ExecuteTo_loop wr pre w r = (w1, None)"
       "WriteTo wr n w1 r = (w', Some e)"
    using ExecuteTo_loop_failure [of wr "Nodes t" w r w' e] by (auto simp: ExecuteTo_def)
  have eng: "(\<forall>msg. e \<noteq> WriteFailure msg) \<longrightarrow> w' = w1"
    using WriteTo_engine_error [OF d(3)] by blast
  have app: "(\<forall>w s. snd (wr w s) = None \<and> contents (fst (wr w s)) = contents w @ s) \<longrightarrow>
           snd (Execute \<lparr>Nodes = pre\<rparr> r) = None
         \<and> contents w' = contents w @ fst (Execute \<lparr>Nodes = pre\<rparr> r)"
  proof
    assume sink: "\<forall>w s. snd (wr w s) = None \<and> contents (fst (wr w s)) = contents w @ s"
    from Execute_ExecuteTo_agree_aux [OF sink, where ns = pre and w = w and r = r] d(2)
    have ok: "snd (Execute \<lparr>Nodes = pre\<rparr> r) = None"
      and c1: "contents w1 = contents w @ fst (Execute \<lparr>Nodes = pre\<rparr> r)"
      by (simp_all add: ExecuteTo_def)
    have "\<forall>msg. e \<noteq> WriteFailure msg"
    proof (intro allI notI)
      fix msg assume "e = WriteFailure msg"
      show False
      proof (cases "contribution n r")
        case (Inl e')
        with d(3) \<open>e = WriteFailure msg\<close> contribution_not_WriteFailure [of n r msg]
        show False by (simp add: WriteTo_contribution)
      next
        case (Inr s)
        with d(3) have "snd (WriteString wr w1 s) = Some e" by (simp add: WriteTo_contribution)
        with appending_WriteString(1) [OF sink, of w1 s] show False by simp
      qed
    qed
    with eng have "w' = w1" by simp
    with ok c1 show "snd (Execute \<lparr>Nodes = pre\<rparr> r) = None
         \<and> contents w' = contents w @ fst (Execute \<lparr>Nodes = pre\<rparr> r)" by simp
  qed
  from d eng app show "\<exists>pre n post w1.
        Nodes t = pre @ n # post
      \<and> ExecuteTo wr \<lparr>Nodes = pre\<rparr> w r = (w1, None)
      \<and> WriteTo wr n w1 r = (w', Some e)
      \<and> ((\<forall>msg. e \<noteq> WriteFailure msg) \<longrightarrow> w' = w1)
      \<and> ((\<forall>w s. snd (wr w s) = None \<and> contents (fst (wr w s)) = contents w @ s) \<longrightarrow>
           snd (Execute \<lparr>Nodes = pre\<rparr> r) = None
         \<and> contents w' = contents w @ fst (Execute \<lparr>Nodes = pre\<rparr> r))"
    unfolding ExecuteTo_def by (intro exI [of _ pre] exI [of _ n] exI [of _ post] exI [of _ w1]) simp
next
  assume "\<exists>pre n post w1.
        Nodes t = pre @ n # post
      \<and> ExecuteTo wr \<lparr>Nodes = pre\<rparr> w r = (w1, None)
      \<and> WriteTo wr n w1 r = (w', Some e)
      \<and> ((\<forall>msg. e \<noteq> WriteFailure msg) \<longrightarrow> w' = w1)
      \<and> ((\<forall>w s. snd (wr w s) = None \<and> contents (fst (wr w s)) = contents w @ s) \<longrightarrow>
           snd (Execute \<lparr>Nodes = pre\<rparr> r) = None
         \<and> contents w' = contents w @ fst (Execute \<lparr>Nodes = pre\<rparr> r))"
  then obtain pre n post w1 where
    d: "Nodes t = pre @ n # post" "ExecuteTo_loop wr pre w r = (w1, None)"
       "WriteTo wr n w1 r = (w', Some e)"
    by (auto simp: ExecuteTo_def)
  then show "ExecuteTo wr t w r = (w', Some e)"
    by (simp add: ExecuteTo_def ExecuteTo_loop_append)
qed


theorem ExecuteTo_fail_fast_witness:
  "ExecuteTo Builder_Write
      \<lparr>Nodes = [TextN \<lparr>Text = ''Hello ''\<rparr>,
                VarN \<lparr>Key = ''name'', Choices = [], Default = [], HasDef = False\<rparr>,
                TextN \<lparr>Text = ''!''\<rparr>]\<rparr>
      ''>> '' (ReplacerFuncFromMap Map.empty)
     = (''>> Hello '', Some (NoReplacement ''name''))
   \<and> (\<exists>pre n post w1.
        [TextN \<lparr>Text = ''Hello ''\<rparr>,
         VarN \<lparr>Key = ''name'', Choices = [], Default = [], HasDef = False\<rparr>,
         TextN \<lparr>Text = ''!''\<rparr>] = pre @ n # post
      \<and> ExecuteTo Builder_Write \<lparr>Nodes = pre\<rparr> ''>> '' (ReplacerFuncFromMap Map.empty) = (w1, None)
      \<and> WriteTo Builder_Write n w1 (ReplacerFuncFromMap Map.empty)
           = (''>> Hello '', Some (NoReplacement ''name''))
      \<and> ''>> Hello '' = w1
      \<and> ''>> Hello '' = ''>> '' @ fst (Execute \<lparr>Nodes = pre\<rparr> (ReplacerFuncFromMap Map.empty)))"
proof -
  let ?t = "\<lparr>Nodes = [TextN \<lparr>Text = ''Hello ''\<rparr>,
                      VarN \<lparr>Key = ''name'', Choices = [], Default = [], HasDef = False\<rparr>,
                      TextN \<lparr>Text = ''!''\<rparr>]\<rparr>"
  let ?r = "ReplacerFuncFromMap Map.empty"
  have sink: "\<forall>w s. snd (Builder_Write w s) = None \<and> fst (Builder_Write w s) = w @ s"
    by (simp add: Builder_Write_def)
  have fails: "ExecuteTo Builder_Write ?t ''>> '' ?r = (''>> Hello '', Some (NoReplacement ''name''))"
    by (simp add: ExecuteTo_def TextNode_WriteTo_def VarNode_WriteTo_def WriteString_Builder
        ReplacerFuncFromMap_def)
  from ExecuteTo_fail_fast [of Builder_Write ?t "''>> ''" ?r "''>> Hello ''"
      "NoReplacement ''name''" "\<lambda>w. w"] fails sink
  show ?thesis by simp blast
qed

section \<open>Properties of the token parser\<close>

lemma parseToken_parts_eq:
  "parseToken_parts ps (choices, def, hasDef) =
     (choices @ filter (\<lambda>p. \<not> HasPrefix p defPrefix) (map TrimSpace ps),
      (case filter (\<lambda>p. HasPrefix p defPrefix) (map TrimSpace ps) of
         [] \<Rightarrow> def
       | d # ds \<Rightarrow> drop (length defPrefix) (last (d # ds))),
      hasDef \<or> (\<exists>p \<in> set (map TrimSpace ps). HasPrefix p defPrefix))"
proof (induction ps arbitrary: choices "def" hasDef)
  case Nil
  show ?case by simp
next
  case (Cons p ps)
  show ?case
  proof (cases "HasPrefix (TrimSpace p) defPrefix")
    case True
    then show ?thesis
      by (simp add: Cons.IH Let_def split: list.splits)
  next
    case False
    then show ?thesis
      by (simp add: Cons.IH Let_def split: list.splits)
  qed
qed

text \<open>
  C5. For a marker body whose trimmed form is the sigil followed by \<open>body\<close>, with the
  first choice separator of \<open>body\<close> at \<open>idx\<close>: the key is the trimmed text before the
  separator; the text after it is split on \<open>|\<close> and each part trimmed; the parts that do
  not begin with \<open>@\<close> are the choices, in order and with duplicates; the default is present
  exactly when some part begins with \<open>@\<close>, and is the last such part without the sigil.
\<close>

theorem parseToken_choices:
  assumes "TrimSpace token = varPrefix @ body"
    and "Index body choiceSep = Some idx"
  shows "parseToken token =
     (let parts = map TrimSpace (Split (drop (idx + length choiceSep) body) choiceDelim);
          defaults = filter (\<lambda>p. HasPrefix p defPrefix) parts in
      Inr (VarN \<lparr>Key = TrimSpace (take idx body),
                 Choices = filter (\<lambda>p. \<not> HasPrefix p defPrefix) parts,
                 Default = (if defaults = [] then []
                            else drop (length defPrefix) (last defaults)),
                 HasDef = (defaults \<noteq> [])\<rparr>))"
proof -
  from assms(1) have sig: "HasPrefix (TrimSpace token) varPrefix"
    and body: "drop (length varPrefix) (TrimSpace token) = body"
    by (simp_all add: HasPrefix_def)
  show ?thesis
    unfolding parseToken_def Let_def
    by (simp add: sig body assms(2) parseToken_parts_eq filter_empty_conv split: list.splits)
qed

theorem parseToken_choices_witness:
  "parseToken '' .greeting : Hi | Hello |@Hey|@Yo| Hi '' =
     Inr (VarN \<lparr>Key = ''greeting'', Choices = [''Hi'', ''Hello'', ''Hi''],
                Default = ''Yo'', HasDef = True\<rparr>)"
proof -
  have h1: "TrimSpace '' .greeting : Hi | Hello |@Hey|@Yo| Hi ''
              = varPrefix @ ''greeting : Hi | Hello |@Hey|@Yo| Hi''"
    by code_simp
  have h2: "Index ''greeting : Hi | Hello |@Hey|@Yo| Hi'' choiceSep = Some 9"
    by code_simp
  have rhs: "(let parts = map TrimSpace (Split (drop (9 + length choiceSep)
                   ''greeting : Hi | Hello |@Hey|@Yo| Hi'') choiceDelim);
          defaults = filter (\<lambda>p. HasPrefix p defPrefix) parts in
      (Inr (VarN \<lparr>Key = TrimSpace (take 9 ''greeting : Hi | Hello |@Hey|@Yo| Hi''),
                 Choices = filter (\<lambda>p. \<not> HasPrefix p defPrefix) parts,
                 Default = (if defaults = [] then []
                            else drop (length defPrefix) (last defaults)),
                 HasDef = (defaults \<noteq> [])\<rparr>) :: error + Node))
      = Inr (VarN \<lparr>Key = ''greeting'', Choices = [''Hi'', ''Hello'', ''Hi''],
                Default = ''Yo'', HasDef = True\<rparr>)"
    by code_simp
  from parseToken_choices [OF h1 h2] rhs show ?thesis by simp
qed

section \<open>Properties of the scanner\<close>

lemma ParseString_loop_None:
  "findNextTemplate data pos = None \<Longrightarrow>
     ParseString_loop data pos nodes =
       Inr (if 0 < length (drop pos data)
            then nodes @ [TextN \<lparr>Text = drop pos data\<rparr>] else nodes)"
  by (subst ParseString_loop.simps) simp

lemma ParseString_loop_Some:
  "findNextTemplate data pos = Some (start, end) \<Longrightarrow>
     ParseString_loop data pos nodes =
       (case parseToken (slice data (start + length openMarker) (end - length closeMarker)) of
          Inl err \<Rightarrow> Inl err
        | Inr node \<Rightarrow>
            ParseString_loop data end
              ((if pos < start then nodes @ [TextN \<lparr>Text = slice data pos start\<rparr>] else nodes)
               @ [node]))"
  by (subst ParseString_loop.simps) (simp add: Let_def)

lemma tokens_None: "findNextTemplate data pos = None \<Longrightarrow> tokens data pos = []"
  by (subst tokens.simps) simp

lemma tokens_Some:
  "findNextTemplate data pos = Some (start, end) \<Longrightarrow>
     tokens data pos =
       slice data (start + length openMarker) (end - length closeMarker) # tokens data end"
  by (subst tokens.simps) simp

lemma parseToken_Inl:
  "(parseToken tok = Inl e) = (\<not> HasPrefix (TrimSpace tok) varPrefix \<and> e = InvalidTokenSyntax tok)"
  by (auto simp: parseToken_def Let_def split: option.splits prod.splits)

lemma parseToken_bad:
  "\<not> HasPrefix (TrimSpace tok) varPrefix \<Longrightarrow> parseToken tok = Inl (InvalidTokenSyntax tok)"
  by (simp add: parseToken_Inl)

lemma parseToken_good:
  "HasPrefix (TrimSpace tok) varPrefix \<Longrightarrow> \<exists>node. parseToken tok = Inr node"
  by (cases "parseToken tok") (auto simp: parseToken_Inl)

lemma ParseString_loop_Inl:
  "(ParseString_loop data pos nodes = Inl e) =
     (\<exists>tok. find (\<lambda>t. \<not> HasPrefix (TrimSpace t) varPrefix) (tokens data pos) = Some tok
           \<and> e = InvalidTokenSyntax tok)"
proof (induction "length data - pos" arbitrary: pos nodes rule: less_induct)
  case less
  show ?case
  proof (cases "findNextTemplate data pos")
    case None
    then show ?thesis by (simp add: ParseString_loop_None tokens_None)
  next
    case (Some se)
    obtain start "end" where se: "se = (start, end)" by (cases se)
    with Some have f: "findNextTemplate data pos = Some (start, end)" by simp
    let ?tok = "slice data (start + length openMarker) (end - length closeMarker)"
    from findNextTemplate_bounds [OF f] have dec: "length data - end < length data - pos"
      by simp
    show ?thesis
    proof (cases "HasPrefix (TrimSpace ?tok) varPrefix")
      case False
      then show ?thesis
        by (auto simp: ParseString_loop_Some [OF f] tokens_Some [OF f] parseToken_bad)
    next
      case True
      from parseToken_good [OF True] obtain node where n: "parseToken ?tok = Inr node" ..
      from less [OF dec] True n show ?thesis
        by (simp add: ParseString_loop_Some [OF f] tokens_Some [OF f])
    qed
  qed
qed

text \<open>
  C3. A marker body whose trimmed form does not start with the sigil is rejected by
  \<open>parseToken\<close> with \<open>InvalidTokenSyntax\<close> carrying that body; and when such a body is
  among the marker bodies of a template, \<open>ParseString\<close> returns only an error, namely
  \<open>InvalidTokenSyntax\<close> carrying the first such body, and no template.
\<close>

theorem ParseString_invalid_token:
  assumes "tok \<in> set (tokens data 0)" and "\<not> HasPrefix (TrimSpace tok) varPrefix"
  shows "parseToken tok = Inl (InvalidTokenSyntax tok)
       \<and> (\<exists>bad. find (\<lambda>t. \<not> HasPrefix (TrimSpace t) varPrefix) (tokens data 0) = Some bad
              \<and> ParseString data = Inl (InvalidTokenSyntax bad))"
proof -
  from assms have "find (\<lambda>t. \<not> HasPrefix (TrimSpace t) varPrefix) (tokens data 0) \<noteq> None"
    by (auto simp: find_None_iff)
  then obtain bad where
    bad: "find (\<lambda>t. \<not> HasPrefix (TrimSpace t) varPrefix) (tokens data 0) = Some bad"
    by blast
  then have "ParseString_loop data 0 [] = Inl (InvalidTokenSyntax bad)"
    by (simp add: ParseString_loop_Inl)
  then have "ParseString data = Inl (InvalidTokenSyntax bad)"
    by (simp add: ParseString_def)
  with bad parseToken_bad [OF assms(2)] show ?thesis by blast
qed

theorem ParseString_invalid_token_witness:
  "parseToken ''name'' = Inl (InvalidTokenSyntax ''name'')
   \<and> ParseString ''Hello {{name}}!'' = Inl (InvalidTokenSyntax ''name'')"
proof -
  have toks: "tokens ''Hello {{name}}!'' 0 = [''name'']" by code_simp
  have bad: "\<not> HasPrefix (TrimSpace ''name'') varPrefix" by code_simp
  have mem: "''name'' \<in> set (tokens ''Hello {{name}}!'' 0)" by (simp add: toks)
  from ParseString_invalid_token [OF mem bad] toks bad show ?thesis by auto
qed

lemma markers_None: "findNextTemplate data pos = None \<Longrightarrow> markers data pos = []"
  by (subst markers.simps) simp

lemma markers_Some:
  "findNextTemplate data pos = Some (start, end) \<Longrightarrow>
     markers data pos = (start, end) # markers data end"
  by (subst markers.simps) simp

lemma scanEnd_None: "findNextTemplate data pos = None \<Longrightarrow> scanEnd data pos = pos"
  by (simp add: scanEnd_def markers_None)

lemma scanEnd_Some:
  "findNextTemplate data pos = Some (start, end) \<Longrightarrow> scanEnd data pos = scanEnd data end"
  by (simp add: scanEnd_def markers_Some)



lemma scanEnd_ge: "pos \<le> scanEnd data pos"
proof (induction "length data - pos" arbitrary: pos rule: less_induct)
  case less
  show ?case
  proof (cases "findNextTemplate data pos")
    case None
    then show ?thesis by (simp add: scanEnd_None)
  next
    case (Some se)
    obtain start "end" where se: "se = (start, end)" by (cases se)
    with Some have f: "findNextTemplate data pos = Some (start, end)" by simp
    from findNextTemplate_bounds [OF f] have b: "length data - end < length data - pos" "pos \<le> end"
      by simp_all
    from less [OF b(1)] b(2) show ?thesis by (simp add: scanEnd_Some [OF f])
  qed
qed

text \<open>The loop, once every body passes the sigil test.\<close>

lemma ParseString_loop_Inr:
  "\<forall>tok \<in> set (tokens data pos). HasPrefix (TrimSpace tok) varPrefix \<Longrightarrow>
   ParseString_loop data pos nodes =
     Inr (nodes @ marker_nodes data pos (markers data pos)
          @ (if drop (scanEnd data pos) data = [] then []
             else [TextN \<lparr>Text = drop (scanEnd data pos) data\<rparr>]))"
proof (induction "length data - pos" arbitrary: pos nodes rule: less_induct)
  case less
  show ?case
  proof (cases "findNextTemplate data pos")
    case None
    then show ?thesis
      by (simp add: ParseString_loop_None markers_None scanEnd_None)
  next
    case (Some se)
    obtain start "end" where se: "se = (start, end)" by (cases se)
    with Some have f: "findNextTemplate data pos = Some (start, end)" by simp
    let ?tok = "slice data (start + length openMarker) (end - length closeMarker)"
    from findNextTemplate_bounds [OF f] have dec: "length data - end < length data - pos"
      by simp
    from less.prems have good: "HasPrefix (TrimSpace ?tok) varPrefix"
      and rest: "\<forall>tok \<in> set (tokens data end). HasPrefix (TrimSpace tok) varPrefix"
      by (simp_all add: tokens_Some [OF f])
    from parseToken_good [OF good] obtain node where n: "parseToken ?tok = Inr node" ..
    from less.hyps [OF dec rest] n show ?thesis
      by (simp add: ParseString_loop_Some [OF f] markers_Some [OF f] scanEnd_Some [OF f])
  qed
qed

lemma ParseString_loop_Inr_good:
  assumes "ParseString_loop data pos nodes = Inr ns"
  shows "\<forall>tok \<in> set (tokens data pos). HasPrefix (TrimSpace tok) varPrefix"
proof (rule ccontr)
  assume "\<not> (\<forall>tok \<in> set (tokens data pos). HasPrefix (TrimSpace tok) varPrefix)"
  then have "find (\<lambda>t. \<not> HasPrefix (TrimSpace t) varPrefix) (tokens data pos) \<noteq> None"
    by (auto simp: find_None_iff)
  then obtain bad where
    "find (\<lambda>t. \<not> HasPrefix (TrimSpace t) varPrefix) (tokens data pos) = Some bad" by blast
  then have "ParseString_loop data pos nodes = Inl (InvalidTokenSyntax bad)"
    by (simp add: ParseString_loop_Inl)
  with assms show False by simp
qed







lemma prefix_two:
  "prefix [a, b] (drop p s) = (Suc p < length s \<and> s ! p = a \<and> s ! Suc p = b)"
proof (cases "Suc p < length s")
  case True
  then have "drop p s = s ! p # s ! Suc p # drop (Suc (Suc p)) s"
    by (simp add: Cons_nth_drop_Suc Suc_lessD)
  with True show ?thesis by auto
next
  case False
  have "\<not> prefix [a, b] (drop p s)"
  proof
    assume "prefix [a, b] (drop p s)"
    from prefix_length_le [OF this] False show False by simp
  qed
  with False show ?thesis by simp
qed

lemma unterminated_after_end:
  assumes f: "findNextTemplate data pos = Some (start, end)"
    and le: "pos \<le> p"
    and opn: "prefix openMarker (drop p data)"
    and nocl: "Index (drop (p + length openMarker) data) closeMarker = None"
  shows "end \<le> p"
proof -
  from f obtain i j where
    i: "Index (drop pos data) openMarker = Some i" and
    j: "Index (drop (i + pos + length openMarker) data) closeMarker = Some j" and
    s: "start = i + pos" and e: "end = j + (i + pos + length openMarker) + length closeMarker"
    by (auto simp: findNextTemplate_def Let_def split: option.splits)
  let ?c = "j + (start + 2)"
  have start_le: "start \<le> p"
  proof (rule ccontr)
    assume "\<not> start \<le> p"
    with s le have "p - pos < i" by simp
    from Index_first [OF i this] le opn show False by simp
  qed
  from Index_hit [OF j] s have "prefix closeMarker (drop ?c data)"
    by (simp add: openMarker_def add.commute add.left_commute)
  then have cl: "Suc ?c < length data" "data ! ?c = CHR ''}''" "data ! Suc ?c = CHR ''}''"
    by (simp_all add: closeMarker_def prefix_two)
  from opn have op: "Suc p < length data" "data ! p = CHR ''{''" "data ! Suc p = CHR ''{''"
    by (simp_all add: openMarker_def prefix_two)
  have no: "\<not> prefix closeMarker (drop (k + (p + 2)) data)" for k
    using Index_miss [OF nocl, of k] by (simp add: openMarker_def add.commute add.left_commute)
  have "\<not> p + 2 \<le> ?c"
  proof
    assume "p + 2 \<le> ?c"
    then obtain k where "?c = k + (p + 2)" by (metis le_Suc_ex add.commute)
    with no [of k] \<open>prefix closeMarker (drop ?c data)\<close> show False by simp
  qed
  moreover have "p \<noteq> ?c" using cl(2) op(2) by auto
  moreover have "Suc p \<noteq> ?c" using cl(2) op(3) by auto
  moreover have "p \<noteq> Suc ?c" using cl(3) op(2) by auto
  ultimately have "?c + 2 \<le> p" by arith
  with s e show ?thesis by (simp add: openMarker_def closeMarker_def)
qed

lemma Execute_loop_append:
  "Execute_loop (xs @ ys) out r =
     (case Execute_loop xs out r of
        (out1, None) \<Rightarrow> Execute_loop ys out1 r
      | (out1, Some e) \<Rightarrow> ([], Some e))"
  by (induction xs arbitrary: out) (auto split: prod.splits option.splits)

lemma Execute_final_text:
  "snd (Execute \<lparr>Nodes = ns\<rparr> r) = None \<Longrightarrow>
     Execute \<lparr>Nodes = ns @ [TextN \<lparr>Text = txt\<rparr>]\<rparr> r = (fst (Execute \<lparr>Nodes = ns\<rparr> r) @ txt, None)"
  by (auto simp: Execute_def Execute_loop_append TextNode_WriteTo_def WriteString_Builder
           split: prod.splits option.splits)

lemma scanEnd_before_unterminated:
  assumes opn: "prefix openMarker (drop p data)"
    and nocl: "Index (drop (p + length openMarker) data) closeMarker = None"
  shows "pos \<le> p \<Longrightarrow> scanEnd data pos \<le> p"
proof (induction "length data - pos" arbitrary: pos rule: less_induct)
  case less
  show ?case
  proof (cases "findNextTemplate data pos")
    case None
    with less.prems show ?thesis by (simp add: scanEnd_None)
  next
    case (Some se)
    obtain start "end" where se: "se = (start, end)" by (cases se)
    with Some have f: "findNextTemplate data pos = Some (start, end)" by simp
    from findNextTemplate_bounds [OF f] have dec: "length data - end < length data - pos"
      by simp
    from unterminated_after_end [OF f less.prems opn nocl] have "end \<le> p" .
    from less.hyps [OF dec this] show ?thesis by (simp add: scanEnd_Some [OF f])
  qed
qed

text \<open>
  C2, as amended. Let an opening marker stand at position \<open>p\<close> with no closing marker
  after it, and let every marker body of the text start with the sigil. Then the scan
  ends at \<open>scanEnd data 0\<close>, the end of the last closed marker or the start of the text,
  which is not after \<open>p\<close>; parsing succeeds with the nodes of the closed markers followed
  by one literal node holding the text from that position to the end, so with the
  unmatched marker in it; and rendering appends this text unchanged to what the nodes
  before it render. When the marker at \<open>p\<close> is the first opening marker of the text, the
  template is the whole text as one literal node and renders to the text itself.
\<close>

theorem ParseString_unterminated:
  assumes "prefix openMarker (drop p data)"
    and "Index (drop (p + length openMarker) data) closeMarker = None"
    and "\<forall>tok \<in> set (tokens data 0). HasPrefix (TrimSpace tok) varPrefix"
  shows "scanEnd data 0 \<le> p
       \<and> ParseString data =
           Inr \<lparr>Nodes = marker_nodes data 0 (markers data 0)
                        @ [TextN \<lparr>Text = drop (scanEnd data 0) data\<rparr>]\<rparr>
       \<and> (\<forall>r. snd (Execute \<lparr>Nodes = marker_nodes data 0 (markers data 0)\<rparr> r) = None \<longrightarrow>
             Execute \<lparr>Nodes = marker_nodes data 0 (markers data 0)
                              @ [TextN \<lparr>Text = drop (scanEnd data 0) data\<rparr>]\<rparr> r
               = (fst (Execute \<lparr>Nodes = marker_nodes data 0 (markers data 0)\<rparr> r)
                    @ drop (scanEnd data 0) data, None))
       \<and> (Index data openMarker = Some p \<longrightarrow>
            ParseString data = Inr \<lparr>Nodes = [TextN \<lparr>Text = data\<rparr>]\<rparr>
          \<and> (\<forall>r. Execute \<lparr>Nodes = [TextN \<lparr>Text = data\<rparr>]\<rparr> r = (data, None)))"
proof -
  let ?ms = "marker_nodes data 0 (markers data 0)"
  let ?q = "scanEnd data 0"
  from scanEnd_before_unterminated [OF assms(1,2), of 0] have q: "?q \<le> p" by simp
  from assms(1) have "Suc p < length data" by (simp add: openMarker_def prefix_two)
  with q have ne: "drop ?q data \<noteq> []" by simp
  from ParseString_loop_Inr [OF assms(3), of "[]"] ne
  have p: "ParseString data = Inr \<lparr>Nodes = ?ms @ [TextN \<lparr>Text = drop ?q data\<rparr>]\<rparr>"
    by (simp add: ParseString_def)
  have r: "\<forall>r. snd (Execute \<lparr>Nodes = ?ms\<rparr> r) = None \<longrightarrow>
             Execute \<lparr>Nodes = ?ms @ [TextN \<lparr>Text = drop ?q data\<rparr>]\<rparr> r
               = (fst (Execute \<lparr>Nodes = ?ms\<rparr> r) @ drop ?q data, None)"
    using Execute_final_text [of ?ms _ "drop ?q data"] by blast
  have f: "Index data openMarker = Some p \<longrightarrow>
            ParseString data = Inr \<lparr>Nodes = [TextN \<lparr>Text = data\<rparr>]\<rparr>
          \<and> (\<forall>r. Execute \<lparr>Nodes = [TextN \<lparr>Text = data\<rparr>]\<rparr> r = (data, None))"
  proof
    assume first: "Index data openMarker = Some p"
    with assms(2) have none: "findNextTemplate data 0 = None"
      by (simp add: findNextTemplate_def)
    from assms(1) have "data \<noteq> []" by (auto simp: openMarker_def)
    with none have "ParseString data = Inr \<lparr>Nodes = [TextN \<lparr>Text = data\<rparr>]\<rparr>"
      by (simp add: ParseString_def ParseString_loop_None)
    moreover have "\<forall>r. Execute \<lparr>Nodes = [TextN \<lparr>Text = data\<rparr>]\<rparr> r = (data, None)"
      by (simp add: Execute_def TextNode_WriteTo_def WriteString_Builder)
    ultimately show "ParseString data = Inr \<lparr>Nodes = [TextN \<lparr>Text = data\<rparr>]\<rparr>
          \<and> (\<forall>r. Execute \<lparr>Nodes = [TextN \<lparr>Text = data\<rparr>]\<rparr> r = (data, None))"
      by simp
  qed
  from q p r f show ?thesis by blast
qed

theorem ParseString_unterminated_witness:
  "ParseString ''{{.a}} and {{.b''
     = Inr \<lparr>Nodes = [VarN \<lparr>Key = ''a'', Choices = [], Default = [], HasDef = False\<rparr>,
                      TextN \<lparr>Text = '' and {{.b''\<rparr>]\<rparr>
   \<and> Execute \<lparr>Nodes = [VarN \<lparr>Key = ''a'', Choices = [], Default = [], HasDef = False\<rparr>,
                        TextN \<lparr>Text = '' and {{.b''\<rparr>]\<rparr>
        (ReplacerFuncFromMap [''a'' \<mapsto> ''this'']) = (''this and {{.b'', None)
   \<and> ParseString ''Hello {{.name'' = Inr \<lparr>Nodes = [TextN \<lparr>Text = ''Hello {{.name''\<rparr>]\<rparr>
   \<and> Execute \<lparr>Nodes = [TextN \<lparr>Text = ''Hello {{.name''\<rparr>]\<rparr>
        (ReplacerFuncFromMap [''name'' \<mapsto> ''World'']) = (''Hello {{.name'', None)"
proof -
  have a1: "prefix openMarker (drop 11 ''{{.a}} and {{.b'')" by code_simp
  have a2: "Index (drop (11 + length openMarker) ''{{.a}} and {{.b'') closeMarker = None"
    by code_simp
  have a3: "tokens ''{{.a}} and {{.b'' 0 = [''.a'']" by code_simp
  have a4: "HasPrefix (TrimSpace ''.a'') varPrefix" by code_simp
  from a3 a4 have a5: "\<forall>tok \<in> set (tokens ''{{.a}} and {{.b'' 0). HasPrefix (TrimSpace tok) varPrefix"
    by simp
  have m: "markers ''{{.a}} and {{.b'' 0 = [(0, 6)]" by code_simp
  have e: "scanEnd ''{{.a}} and {{.b'' 0 = 6" by code_simp
  have n: "marker_nodes ''{{.a}} and {{.b'' 0 [(0, 6)]
     = [VarN \<lparr>Key = ''a'', Choices = [], Default = [], HasDef = False\<rparr>]"
    by code_simp
  have x: "Execute \<lparr>Nodes = [VarN \<lparr>Key = ''a'', Choices = [], Default = [], HasDef = False\<rparr>]\<rparr>
      (ReplacerFuncFromMap [''a'' \<mapsto> ''this'']) = (''this'', None)"
    by (simp add: Execute_def VarNode_WriteTo_def WriteString_Builder ReplacerFuncFromMap_def)
  have b1: "prefix openMarker (drop 6 ''Hello {{.name'')" by code_simp
  have b2: "Index (drop (6 + length openMarker) ''Hello {{.name'') closeMarker = None"
    by code_simp
  have b3: "tokens ''Hello {{.name'' 0 = []" by code_simp
  then have b4: "\<forall>tok \<in> set (tokens ''Hello {{.name'' 0). HasPrefix (TrimSpace tok) varPrefix"
    by simp
  have b5: "Index ''Hello {{.name'' openMarker = Some 6" by code_simp
  from ParseString_unterminated [OF a1 a2 a5] m e n
  have r1: "ParseString ''{{.a}} and {{.b''
     = Inr \<lparr>Nodes = [VarN \<lparr>Key = ''a'', Choices = [], Default = [], HasDef = False\<rparr>,
                      TextN \<lparr>Text = '' and {{.b''\<rparr>]\<rparr>"
    and r2: "\<forall>r. snd (Execute \<lparr>Nodes = [VarN \<lparr>Key = ''a'', Choices = [], Default = [], HasDef = False\<rparr>]\<rparr> r) = None \<longrightarrow>
      Execute \<lparr>Nodes = [VarN \<lparr>Key = ''a'', Choices = [], Default = [], HasDef = False\<rparr>,
                        TextN \<lparr>Text = '' and {{.b''\<rparr>]\<rparr> r
      = (fst (Execute \<lparr>Nodes = [VarN \<lparr>Key = ''a'', Choices = [], Default = [], HasDef = False\<rparr>]\<rparr> r)
          @ '' and {{.b'', None)"
    by simp_all
  from r2 x have r3: "Execute \<lparr>Nodes = [VarN \<lparr>Key = ''a'', Choices = [], Default = [], HasDef = False\<rparr>,
                        TextN \<lparr>Text = '' and {{.b''\<rparr>]\<rparr>
        (ReplacerFuncFromMap [''a'' \<mapsto> ''this'']) = (''this and {{.b'', None)"
    by simp
  from ParseString_unterminated [OF b1 b2 b4] b5
  have r4: "ParseString ''Hello {{.name'' = Inr \<lparr>Nodes = [TextN \<lparr>Text = ''Hello {{.name''\<rparr>]\<rparr>"
    and r5: "\<forall>r. Execute \<lparr>Nodes = [TextN \<lparr>Text = ''Hello {{.name''\<rparr>]\<rparr> r = (''Hello {{.name'', None)"
    by blast+
  from r1 r3 r4 r5 show ?thesis by simp
qed

text \<open>
  C2 as stated fails on \<open>{{x}}{{\<close>: the opening marker at position 5 has no closing marker
  after it, yet parsing fails, on the body \<open>x\<close> of the closed marker before it.
\<close>

theorem ParseString_unterminated_counterexample:
  "prefix openMarker (drop 5 ''{{x}}{{'')
   \<and> Index (drop (5 + length openMarker) ''{{x}}{{'') closeMarker = None
   \<and> ParseString ''{{x}}{{'' = Inl (InvalidTokenSyntax ''x'')"
  by code_simp

section \<open>The empty default\<close>

text \<open>A template that is one marker: \<open>{{\<close>, a body whose first \<open>}}\<close> is the one after it, \<open>}}\<close>.\<close>

lemma ParseString_single_marker:
  assumes cl: "Index (token @ closeMarker) closeMarker = Some (length token)"
  shows "ParseString (openMarker @ token @ closeMarker) =
           (case parseToken token of
              Inl err \<Rightarrow> Inl err
            | Inr node \<Rightarrow> Inr \<lparr>Nodes = [node]\<rparr>)"
proof -
  let ?data = "openMarker @ token @ closeMarker"
  let ?end = "length token + 4"
  have op: "Index (drop 0 ?data) openMarker = Some 0"
    by (simp add: openMarker_def)
  have rest: "drop (0 + 0 + length openMarker) ?data = token @ closeMarker" by simp
  have f: "findNextTemplate ?data 0 = Some (0, ?end)"
    unfolding findNextTemplate_def Let_def op option.case rest cl
    by (simp add: openMarker_def closeMarker_def)
  have tok: "slice ?data (0 + length openMarker) (?end - length closeMarker) = token"
    by (simp add: slice_def openMarker_def closeMarker_def)
  have "drop ?end ?data = []" by (simp add: openMarker_def closeMarker_def)
  then have stop: "findNextTemplate ?data ?end = None"
    by (simp add: findNextTemplate_def openMarker_def)
  have fin: "ParseString_loop ?data ?end nodes = Inr nodes" for nodes
    using \<open>drop ?end ?data = []\<close> by (simp add: ParseString_loop_None [OF stop])
  show ?thesis
    unfolding ParseString_def ParseString_loop_Some [OF f] tok
    by (cases "parseToken token") (simp_all add: fin)
qed

text \<open>
  C6. The empty string is a default of its own. Take any marker \<open>{{token}}\<close> whose body,
  trimmed, is the sigil followed by \<open>body\<close>. If \<open>body\<close> has a choice separator and the last
  part beginning with \<open>@\<close> is the bare \<open>@\<close>, the template is one variable node with the
  default present and empty, and it renders to the empty string without error when the
  replacer does not find the key. If no part begins with \<open>@\<close>, or there is no choice
  separator, the node has no default and rendering fails with \<open>NoReplacement\<close>. For every
  variable node only the flag \<open>HasDef\<close> decides between the two, not the value of
  \<open>Default\<close>.
\<close>

theorem empty_default_is_a_default:
  assumes tok: "TrimSpace token = varPrefix @ body"
    and cl: "Index (token @ closeMarker) closeMarker = Some (length token)"
  shows
    "(Index body choiceSep = Some idx \<and> \<not> snd (r (TrimSpace (take idx body))) \<longrightarrow>
       (let key = TrimSpace (take idx body);
            parts = map TrimSpace (Split (drop (idx + length choiceSep) body) choiceDelim);
            choices = filter (\<lambda>p. \<not> HasPrefix p defPrefix) parts;
            defaults = filter (\<lambda>p. HasPrefix p defPrefix) parts
        in (defaults \<noteq> [] \<and> last defaults = defPrefix \<longrightarrow>
              ParseString (openMarker @ token @ closeMarker)
                = Inr \<lparr>Nodes = [VarN \<lparr>Key = key, Choices = choices, Default = [], HasDef = True\<rparr>]\<rparr>
            \<and> Execute \<lparr>Nodes = [VarN \<lparr>Key = key, Choices = choices, Default = [], HasDef = True\<rparr>]\<rparr> r
                = ([], None))
         \<and> (defaults = [] \<longrightarrow>
              ParseString (openMarker @ token @ closeMarker)
                = Inr \<lparr>Nodes = [VarN \<lparr>Key = key, Choices = choices, Default = [], HasDef = False\<rparr>]\<rparr>
            \<and> Execute \<lparr>Nodes = [VarN \<lparr>Key = key, Choices = choices, Default = [], HasDef = False\<rparr>]\<rparr> r
                = ([], Some (NoReplacement key)))))
   \<and> (Index body choiceSep = None \<and> \<not> snd (r (TrimSpace body)) \<longrightarrow>
         ParseString (openMarker @ token @ closeMarker)
           = Inr \<lparr>Nodes = [VarN \<lparr>Key = TrimSpace body, Choices = [], Default = [], HasDef = False\<rparr>]\<rparr>
       \<and> Execute \<lparr>Nodes = [VarN \<lparr>Key = TrimSpace body, Choices = [], Default = [], HasDef = False\<rparr>]\<rparr> r
           = ([], Some (NoReplacement (TrimSpace body))))
   \<and> (\<not> snd (r (Key v)) \<and> HasDef v \<and> Default v = [] \<longrightarrow>
        VarNode_WriteTo Builder_Write v out r = (out, None))
   \<and> (\<not> snd (r (Key v)) \<and> \<not> HasDef v \<longrightarrow>
        VarNode_WriteTo Builder_Write v out r = (out, Some (NoReplacement (Key v))))"
proof -
  from tok have sig: "HasPrefix (TrimSpace token) varPrefix"
    and body: "drop (length varPrefix) (TrimSpace token) = body"
    by (simp_all add: HasPrefix_def)
  have ex_def: "\<not> snd (r k) \<Longrightarrow>
      Execute \<lparr>Nodes = [VarN \<lparr>Key = k, Choices = cs, Default = [], HasDef = True\<rparr>]\<rparr> r = ([], None)"
    for k cs
    by (cases "r k") (simp add: Execute_def VarNode_WriteTo_def WriteString_Builder)
  have ex_no: "\<not> snd (r k) \<Longrightarrow>
      Execute \<lparr>Nodes = [VarN \<lparr>Key = k, Choices = cs, Default = [], HasDef = False\<rparr>]\<rparr> r
        = ([], Some (NoReplacement k))"
    for k cs
    by (cases "r k") (simp add: Execute_def VarNode_WriteTo_def)
  have c1: "Index body choiceSep = Some idx \<and> \<not> snd (r (TrimSpace (take idx body))) \<longrightarrow>
       (let key = TrimSpace (take idx body);
            parts = map TrimSpace (Split (drop (idx + length choiceSep) body) choiceDelim);
            choices = filter (\<lambda>p. \<not> HasPrefix p defPrefix) parts;
            defaults = filter (\<lambda>p. HasPrefix p defPrefix) parts
        in (defaults \<noteq> [] \<and> last defaults = defPrefix \<longrightarrow>
              ParseString (openMarker @ token @ closeMarker)
                = Inr \<lparr>Nodes = [VarN \<lparr>Key = key, Choices = choices, Default = [], HasDef = True\<rparr>]\<rparr>
            \<and> Execute \<lparr>Nodes = [VarN \<lparr>Key = key, Choices = choices, Default = [], HasDef = True\<rparr>]\<rparr> r
                = ([], None))
         \<and> (defaults = [] \<longrightarrow>
              ParseString (openMarker @ token @ closeMarker)
                = Inr \<lparr>Nodes = [VarN \<lparr>Key = key, Choices = choices, Default = [], HasDef = False\<rparr>]\<rparr>
            \<and> Execute \<lparr>Nodes = [VarN \<lparr>Key = key, Choices = choices, Default = [], HasDef = False\<rparr>]\<rparr> r
                = ([], Some (NoReplacement key))))"
  proof
    assume a: "Index body choiceSep = Some idx \<and> \<not> snd (r (TrimSpace (take idx body)))"
    let ?parts = "map TrimSpace (Split (drop (idx + length choiceSep) body) choiceDelim)"
    let ?defs = "filter (\<lambda>p. HasPrefix p defPrefix) ?parts"
    let ?key = "TrimSpace (take idx body)"
    let ?choices = "filter (\<lambda>p. \<not> HasPrefix p defPrefix) ?parts"
    have pt: "parseToken token =
        Inr (VarN \<lparr>Key = ?key, Choices = ?choices,
                   Default = (case ?defs of [] \<Rightarrow> [] | d # ds \<Rightarrow> drop (length defPrefix) (last (d # ds))),
                   HasDef = (\<exists>p \<in> set ?parts. HasPrefix p defPrefix)\<rparr>)"
      unfolding parseToken_def Let_def
      using a by (simp add: sig body parseToken_parts_eq)
    have bare: "?defs \<noteq> [] \<and> last ?defs = defPrefix \<longrightarrow>
        parseToken token = Inr (VarN \<lparr>Key = ?key, Choices = ?choices, Default = [], HasDef = True\<rparr>)"
    proof
      assume d: "?defs \<noteq> [] \<and> last ?defs = defPrefix"
      then obtain x xs where xs: "?defs = x # xs" by (cases ?defs) auto
      then have "x \<in> set ?defs" by simp
      then have has: "\<exists>p \<in> set ?parts. HasPrefix p defPrefix" by auto
      from d xs have "last (x # xs) = defPrefix" by simp
      with pt xs has
      show "parseToken token = Inr (VarN \<lparr>Key = ?key, Choices = ?choices, Default = [], HasDef = True\<rparr>)"
        by simp
    qed
    have none: "?defs = [] \<longrightarrow>
        parseToken token = Inr (VarN \<lparr>Key = ?key, Choices = ?choices, Default = [], HasDef = False\<rparr>)"
    proof
      assume d: "?defs = []"
      then have "\<not> (\<exists>p \<in> set ?parts. HasPrefix p defPrefix)"
        by (simp add: filter_empty_conv)
      with pt d
      show "parseToken token = Inr (VarN \<lparr>Key = ?key, Choices = ?choices, Default = [], HasDef = False\<rparr>)"
        by simp
    qed
    from a have ab: "\<not> snd (r ?key)" by simp
    from bare none ex_def [OF ab] ex_no [OF ab]
    show "(let key = TrimSpace (take idx body);
            parts = map TrimSpace (Split (drop (idx + length choiceSep) body) choiceDelim);
            choices = filter (\<lambda>p. \<not> HasPrefix p defPrefix) parts;
            defaults = filter (\<lambda>p. HasPrefix p defPrefix) parts
        in (defaults \<noteq> [] \<and> last defaults = defPrefix \<longrightarrow>
              ParseString (openMarker @ token @ closeMarker)
                = Inr \<lparr>Nodes = [VarN \<lparr>Key = key, Choices = choices, Default = [], HasDef = True\<rparr>]\<rparr>
            \<and> Execute \<lparr>Nodes = [VarN \<lparr>Key = key, Choices = choices, Default = [], HasDef = True\<rparr>]\<rparr> r
                = ([], None))
         \<and> (defaults = [] \<longrightarrow>
              ParseString (openMarker @ token @ closeMarker)
                = Inr \<lparr>Nodes = [VarN \<lparr>Key = key, Choices = choices, Default = [], HasDef = False\<rparr>]\<rparr>
            \<and> Execute \<lparr>Nodes = [VarN \<lparr>Key = key, Choices = choices, Default = [], HasDef = False\<rparr>]\<rparr> r
                = ([], Some (NoReplacement key))))"
      unfolding Let_def ParseString_single_marker [OF cl] by simp
  qed
  have c2: "Index body choiceSep = None \<and> \<not> snd (r (TrimSpace body)) \<longrightarrow>
         ParseString (openMarker @ token @ closeMarker)
           = Inr \<lparr>Nodes = [VarN \<lparr>Key = TrimSpace body, Choices = [], Default = [], HasDef = False\<rparr>]\<rparr>
       \<and> Execute \<lparr>Nodes = [VarN \<lparr>Key = TrimSpace body, Choices = [], Default = [], HasDef = False\<rparr>]\<rparr> r
           = ([], Some (NoReplacement (TrimSpace body)))"
  proof
    assume a: "Index body choiceSep = None \<and> \<not> snd (r (TrimSpace body))"
    then have "parseToken token
        = Inr (VarN \<lparr>Key = TrimSpace body, Choices = [], Default = [], HasDef = False\<rparr>)"
      unfolding parseToken_def Let_def by (simp add: sig body)
    with a ex_no [of "TrimSpace body" "[]"]
    show "ParseString (openMarker @ token @ closeMarker)
           = Inr \<lparr>Nodes = [VarN \<lparr>Key = TrimSpace body, Choices = [], Default = [], HasDef = False\<rparr>]\<rparr>
       \<and> Execute \<lparr>Nodes = [VarN \<lparr>Key = TrimSpace body, Choices = [], Default = [], HasDef = False\<rparr>]\<rparr> r
           = ([], Some (NoReplacement (TrimSpace body)))"
      unfolding ParseString_single_marker [OF cl] by simp
  qed
  have g1: "\<not> snd (r (Key v)) \<and> HasDef v \<and> Default v = [] \<longrightarrow>
        VarNode_WriteTo Builder_Write v out r = (out, None)"
    by (cases "r (Key v)") (simp add: VarNode_WriteTo_def WriteString_Builder)
  have g2: "\<not> snd (r (Key v)) \<and> \<not> HasDef v \<longrightarrow>
        VarNode_WriteTo Builder_Write v out r = (out, Some (NoReplacement (Key v)))"
    by (cases "r (Key v)") (simp add: VarNode_WriteTo_def)
  from c1 c2 g1 g2 show ?thesis by blast
qed

theorem empty_default_is_a_default_witness:
  "ParseString ''{{.key:@}}''
     = Inr \<lparr>Nodes = [VarN \<lparr>Key = ''key'', Choices = [], Default = [], HasDef = True\<rparr>]\<rparr>
   \<and> Execute \<lparr>Nodes = [VarN \<lparr>Key = ''key'', Choices = [], Default = [], HasDef = True\<rparr>]\<rparr>
        (ReplacerFuncFromMap Map.empty) = ([], None)
   \<and> ParseString ''{{ .scope : feat | fix | @ }}''
     = Inr \<lparr>Nodes = [VarN \<lparr>Key = ''scope'', Choices = [''feat'', ''fix''], Default = [],
                            HasDef = True\<rparr>]\<rparr>
   \<and> ParseString ''{{.key:a}}''
     = Inr \<lparr>Nodes = [VarN \<lparr>Key = ''key'', Choices = [''a''], Default = [], HasDef = False\<rparr>]\<rparr>
   \<and> Execute \<lparr>Nodes = [VarN \<lparr>Key = ''key'', Choices = [''a''], Default = [], HasDef = False\<rparr>]\<rparr>
        (ReplacerFuncFromMap Map.empty) = ([], Some (NoReplacement ''key''))
   \<and> ParseString ''{{.key}}''
     = Inr \<lparr>Nodes = [VarN \<lparr>Key = ''key'', Choices = [], Default = [], HasDef = False\<rparr>]\<rparr>
   \<and> Execute \<lparr>Nodes = [VarN \<lparr>Key = ''key'', Choices = [], Default = [], HasDef = False\<rparr>]\<rparr>
        (ReplacerFuncFromMap Map.empty) = ([], Some (NoReplacement ''key''))
   \<and> VarNode_WriteTo Builder_Write
        \<lparr>Key = ''scope'', Choices = [''a''], Default = [], HasDef = True\<rparr> ''fix''
        (ReplacerFuncFromMap Map.empty) = (''fix'', None)
   \<and> VarNode_WriteTo Builder_Write
        \<lparr>Key = ''scope'', Choices = [''a''], Default = [], HasDef = False\<rparr> ''fix''
        (ReplacerFuncFromMap Map.empty) = (''fix'', Some (NoReplacement ''scope''))"
proof -
  let ?r = "ReplacerFuncFromMap Map.empty"
  have ab: "\<not> snd (?r k)" for k by (simp add: ReplacerFuncFromMap_def)
  have tok1: "TrimSpace ''.key:@'' = varPrefix @ ''key:@''" by code_simp
  have cl1: "Index (''.key:@'' @ closeMarker) closeMarker = Some (length ''.key:@'')"
    by code_simp
  have sep1: "Index ''key:@'' choiceSep = Some 3" by code_simp
  have key1: "TrimSpace (take 3 ''key:@'') = ''key''" by code_simp
  have parts1: "map TrimSpace (Split (drop (3 + length choiceSep) ''key:@'') choiceDelim) = [''@'']"
    by code_simp
  have data1: "openMarker @ ''.key:@'' @ closeMarker = ''{{.key:@}}''"
    by (simp add: openMarker_def closeMarker_def)
  have r1: "ParseString ''{{.key:@}}''
     = Inr \<lparr>Nodes = [VarN \<lparr>Key = ''key'', Choices = [], Default = [], HasDef = True\<rparr>]\<rparr>
   \<and> Execute \<lparr>Nodes = [VarN \<lparr>Key = ''key'', Choices = [], Default = [], HasDef = True\<rparr>]\<rparr> ?r
       = ([], None)"
    using empty_default_is_a_default [OF tok1 cl1, of 3 ?r, THEN conjunct1, THEN mp, OF conjI [OF sep1 ab],
        unfolded Let_def key1 parts1 data1]
    by (simp add: HasPrefix_def defPrefix_def)
  have tok2: "TrimSpace '' .scope : feat | fix | @ '' = varPrefix @ ''scope : feat | fix | @''"
    by code_simp
  have cl2: "Index ('' .scope : feat | fix | @ '' @ closeMarker) closeMarker
      = Some (length '' .scope : feat | fix | @ '')"
    by code_simp
  have sep2: "Index ''scope : feat | fix | @'' choiceSep = Some 6" by code_simp
  have key2: "TrimSpace (take 6 ''scope : feat | fix | @'') = ''scope''" by code_simp
  have parts2: "map TrimSpace (Split (drop (6 + length choiceSep) ''scope : feat | fix | @'')
      choiceDelim) = [''feat'', ''fix'', ''@'']"
    by code_simp
  have data2: "openMarker @ '' .scope : feat | fix | @ '' @ closeMarker
      = ''{{ .scope : feat | fix | @ }}''"
    by (simp add: openMarker_def closeMarker_def)
  have r2: "ParseString ''{{ .scope : feat | fix | @ }}''
     = Inr \<lparr>Nodes = [VarN \<lparr>Key = ''scope'', Choices = [''feat'', ''fix''], Default = [],
                            HasDef = True\<rparr>]\<rparr>"
    using empty_default_is_a_default [OF tok2 cl2, of 6 ?r, THEN conjunct1, THEN mp, OF conjI [OF sep2 ab],
        unfolded Let_def key2 parts2 data2]
    by (simp add: HasPrefix_def defPrefix_def)
  have tok3: "TrimSpace ''.key:a'' = varPrefix @ ''key:a''" by code_simp
  have cl3: "Index (''.key:a'' @ closeMarker) closeMarker = Some (length ''.key:a'')"
    by code_simp
  have sep3: "Index ''key:a'' choiceSep = Some 3" by code_simp
  have key3: "TrimSpace (take 3 ''key:a'') = ''key''" by code_simp
  have parts3: "map TrimSpace (Split (drop (3 + length choiceSep) ''key:a'') choiceDelim) = [''a'']"
    by code_simp
  have data3: "openMarker @ ''.key:a'' @ closeMarker = ''{{.key:a}}''"
    by (simp add: openMarker_def closeMarker_def)
  have r3: "ParseString ''{{.key:a}}''
     = Inr \<lparr>Nodes = [VarN \<lparr>Key = ''key'', Choices = [''a''], Default = [], HasDef = False\<rparr>]\<rparr>
   \<and> Execute \<lparr>Nodes = [VarN \<lparr>Key = ''key'', Choices = [''a''], Default = [], HasDef = False\<rparr>]\<rparr> ?r
       = ([], Some (NoReplacement ''key''))"
    using empty_default_is_a_default [OF tok3 cl3, of 3 ?r, THEN conjunct1, THEN mp, OF conjI [OF sep3 ab],
        unfolded Let_def key3 parts3 data3]
    by (simp add: HasPrefix_def defPrefix_def)
  have tok4: "TrimSpace ''.key'' = varPrefix @ ''key''" by code_simp
  have cl4: "Index (''.key'' @ closeMarker) closeMarker = Some (length ''.key'')"
    by code_simp
  have sep4: "Index ''key'' choiceSep = None" by code_simp
  have key4: "TrimSpace ''key'' = ''key''" by code_simp
  have data4: "openMarker @ ''.key'' @ closeMarker = ''{{.key}}''"
    by (simp add: openMarker_def closeMarker_def)
  have r4: "ParseString ''{{.key}}''
     = Inr \<lparr>Nodes = [VarN \<lparr>Key = ''key'', Choices = [], Default = [], HasDef = False\<rparr>]\<rparr>
   \<and> Execute \<lparr>Nodes = [VarN \<lparr>Key = ''key'', Choices = [], Default = [], HasDef = False\<rparr>]\<rparr> ?r
       = ([], Some (NoReplacement ''key''))"
    using empty_default_is_a_default [OF tok4 cl4, of _ ?r, THEN conjunct2, THEN conjunct1, THEN mp,
        OF conjI [OF sep4 ab], unfolded key4 data4]
    by simp
  have r5: "VarNode_WriteTo Builder_Write
        \<lparr>Key = ''scope'', Choices = [''a''], Default = [], HasDef = True\<rparr> ''fix'' ?r
      = (''fix'', None)"
    using empty_default_is_a_default [OF tok1 cl1, of 3 ?r
        "\<lparr>Key = ''scope'', Choices = [''a''], Default = [], HasDef = True\<rparr>" "''fix''",
        THEN conjunct2, THEN conjunct2, THEN conjunct1] ab
    by simp
  have r6: "VarNode_WriteTo Builder_Write
        \<lparr>Key = ''scope'', Choices = [''a''], Default = [], HasDef = False\<rparr> ''fix'' ?r
      = (''fix'', Some (NoReplacement ''scope''))"
    using empty_default_is_a_default [OF tok1 cl1, of 3 ?r
        "\<lparr>Key = ''scope'', Choices = [''a''], Default = [], HasDef = False\<rparr>" "''fix''",
        THEN conjunct2, THEN conjunct2, THEN conjunct2] ab
    by simp
  from r1 r2 r3 r4 r5 r6 show ?thesis by simp
qed

end
